theory Spec2Isabelle
  imports Main "HOL-Library.AList" "HOL-Library.Word"
begin

section \<open>The prefix header CommonMach-OPrefix.h as a preprocessor program\<close>

text \<open>
  The source file consists of preprocessor directives only. It is embedded as the list
  of its directives, in source order, and run by an interpreter of the directives it
  uses: \<^verbatim>\<open>#define\<close>, \<^verbatim>\<open>#include\<close>, \<^verbatim>\<open>#error\<close>, \<^verbatim>\<open>#ifndef\<close> and
  \<^verbatim>\<open>#if\<close>/\<^verbatim>\<open>#else\<close>.
\<close>

subsection \<open>Macro bodies and controlling expressions\<close>

text \<open>
  The expressions that occur after \<^verbatim>\<open>#if\<close> and as macro bodies in the file: integer
  literals, identifiers, \<^verbatim>\<open>!\<close>, \<^verbatim>\<open>==\<close>, \<^verbatim>\<open>&&\<close> and \<^verbatim>\<open>||\<close>. The arithmetic of
  \<^verbatim>\<open>#if\<close> is that of the widest integer type, 64 bits wide: \<open>Num w\<close> is an integer
  literal (with its sign, if it has one) of the value \<open>w\<close> in that arithmetic, where a
  literal out of range has wrapped around. The four operators do not depend on whether
  a value is read as signed or unsigned.
\<close>

datatype pexpr =
    Num "64 word"
  | Ident string
  | LNot pexpr
  | Eq pexpr pexpr
  | And pexpr pexpr
  | Or pexpr pexpr

text \<open>
  A macro is defined with an empty replacement list (\<^verbatim>\<open>#define Debug_Throw\<close>) or with
  an expression: a literal, an identifier, or an expression in parentheses as in
  \<^verbatim>\<open>#define PP_Target_Classic (!PP_Target_Carbon)\<close>, so that replacing the macro by its
  tokens and by its expression is the same.
\<close>

datatype body = Blank | Repl pexpr

type_synonym macro_table = "(string \<times> body) list"

text \<open>
  The value of a controlling expression. A macro is replaced by its body, inside which
  the macro itself is not replaced again; a macro with an empty body leaves a malformed
  expression (\<open>None\<close>). An identifier that is not a macro counts as 0, except for
  \<^verbatim>\<open>true\<close>, which counts as 1: the file is C++. The operators yield 0 or 1.
\<close>

function eval :: "macro_table \<Rightarrow> pexpr \<Rightarrow> 64 word option" where
  "eval ms (Num n) = Some n"
| "eval ms (Ident x) =
     (case map_of ms x of
        None \<Rightarrow> Some (if x = ''true'' then 1 else 0)
      | Some Blank \<Rightarrow> None
      | Some (Repl e) \<Rightarrow> eval (AList.delete x ms) e)"
| "eval ms (LNot e) =
     (case eval ms e of None \<Rightarrow> None | Some v \<Rightarrow> Some (if v = 0 then 1 else 0))"
| "eval ms (Eq a b) =
     (case eval ms a of None \<Rightarrow> None
      | Some v \<Rightarrow> (case eval ms b of None \<Rightarrow> None
          | Some w \<Rightarrow> Some (if v = w then 1 else 0)))"
| "eval ms (And a b) =
     (case eval ms a of None \<Rightarrow> None
      | Some v \<Rightarrow> (case eval ms b of None \<Rightarrow> None
          | Some w \<Rightarrow> Some (if v \<noteq> 0 \<and> w \<noteq> 0 then 1 else 0)))"
| "eval ms (Or a b) =
     (case eval ms a of None \<Rightarrow> None
      | Some v \<Rightarrow> (case eval ms b of None \<Rightarrow> None
          | Some w \<Rightarrow> Some (if v \<noteq> 0 \<or> w \<noteq> 0 then 1 else 0)))"
  by pat_completeness auto

termination eval
proof -
  have less: "length (AList.delete x ms) < length ms" if "map_of ms x = Some b"
    for ms :: macro_table and x b
    using that
    by (induction ms) (auto simp: less_Suc_eq_le AList.length_delete_le split: if_splits)
  show ?thesis
    by (relation "measures [\<lambda>(ms, e). length ms, \<lambda>(ms, e). size e]")
       (auto simp: less)
qed

subsection \<open>Directives and their execution\<close>

datatype header_ref = Angle string | Quote string

datatype directive =
    Define string body
  | Include header_ref
  | Error string
  | IfNDef string "directive list"
  | IfElse pexpr "directive list" "directive list"

datatype failure = ErrorDirective string | BadCondition | IncludeFailed header_ref

text \<open>
  The state of a run: the macro table, the headers this file has included so far and the
  definitions this file has made so far, both in the order of execution.
\<close>

record pp_state =
  macros :: macro_table
  included :: "header_ref list"
  defined :: "(string \<times> body) list"

text \<open>
  The headers named by \<^verbatim>\<open>#include\<close> are not part of the source file. What processing
  one of them does to the macro table is a parameter of the run; \<open>None\<close> means that the
  header cannot be processed.
\<close>

type_synonym headers = "header_ref \<Rightarrow> macro_table \<Rightarrow> macro_table option"

text \<open>
  Execution stops at the first failure: an \<^verbatim>\<open>#error\<close> directive, a malformed
  controlling expression or a header that cannot be processed. A \<^verbatim>\<open>#define\<close> of a macro
  that is already defined replaces its body; the file itself defines no macro twice on
  any path, so this concerns only macros that were defined before the file is read or by
  an outside header.
\<close>

fun exec :: "headers \<Rightarrow> directive \<Rightarrow> pp_state \<Rightarrow> failure + pp_state"
  and run :: "headers \<Rightarrow> directive list \<Rightarrow> pp_state \<Rightarrow> failure + pp_state" where
  "exec hs (Define x b) st =
     Inr (st\<lparr>macros := AList.update x b (macros st), defined := defined st @ [(x, b)]\<rparr>)"
| "exec hs (Include h) st =
     (case hs h (macros st) of
        None \<Rightarrow> Inl (IncludeFailed h)
      | Some ms \<Rightarrow> Inr (st\<lparr>macros := ms, included := included st @ [h]\<rparr>))"
| "exec hs (Error msg) st = Inl (ErrorDirective msg)"
| "exec hs (IfNDef x ds) st =
     (if map_of (macros st) x = None then run hs ds st else Inr st)"
| "exec hs (IfElse c ds es) st =
     (case eval (macros st) c of
        None \<Rightarrow> Inl BadCondition
      | Some v \<Rightarrow> if v \<noteq> 0 then run hs ds st else run hs es st)"
| "run hs [] st = Inr st"
| "run hs (d # ds) st =
     (case exec hs d st of Inl e \<Rightarrow> Inl e | Inr st' \<Rightarrow> run hs ds st')"

subsection \<open>The directives of CommonMach-OPrefix.h\<close>

text \<open>Lines 9 to 15, "Mach-O Target".\<close>

definition mach_o_target :: "directive list" where
  "mach_o_target =
    [Define ''PP_Target_Carbon'' (Repl (Num 1)),
     Define ''PP_Target_Classic'' (Repl (LNot (Ident ''PP_Target_Carbon''))),
     Define ''TARGET_API_MAC_CARBON'' (Repl (Ident ''PP_Target_Carbon'')),
     Define ''TARGET_API_MAC_OS8'' (Repl (Ident ''PP_Target_Classic'')),
     Define ''TARGET_API_MAC_OSX'' (Repl (Ident ''PP_Target_Carbon''))]"

text \<open>Lines 21 to 30, "Options".\<close>

definition options :: "directive list" where
  "options =
    [Define ''PP_Uses_PowerPlant_Namespace'' (Repl (Num 0)),
     Define ''PP_Supports_Pascal_Strings'' (Repl (Num 1)),
     Define ''PP_StdDialogs_Option'' (Repl (Ident ''PP_StdDialogs_NavServicesOnly'')),
     Define ''PP_Uses_Old_Integer_Types'' (Repl (Num 0)),
     Define ''PP_Obsolete_AllowTargetSwitch'' (Repl (Num 0)),
     Define ''PP_Obsolete_ThrowExceptionCode'' (Repl (Num 0)),
     Define ''PP_Warn_Obsolete_Classes'' (Repl (Num 1)),
     Define ''PP_Suppress_Notes_221'' (Repl (Num 1))]"

text \<open>Lines 32 to 36: the library prefix and the mathematics headers.\<close>

definition msl_headers :: "header_ref list" where
  "msl_headers =
    [Angle ''MSLCarbonPrefix.h'', Angle ''cmath'', Angle ''fp.h'', Angle ''complex'']"

text \<open>Lines 40 to 42: \<^verbatim>\<open>#ifndef FIXEDDECIMAL\<close>.\<close>

definition fixeddecimal_guard :: directive where
  "fixeddecimal_guard = IfNDef ''FIXEDDECIMAL'' [Define ''FIXEDDECIMAL'' (Repl (Num 1))]"

text \<open>Line 46.\<close>

definition no_blockmove :: "directive list" where
  "no_blockmove = [Define ''NO_BLOCKMOVE_INLINE'' (Repl (Num 1))]"

text \<open>Lines 54 to 60: the two \<^verbatim>\<open>#error\<close> guards on \<^verbatim>\<open>_do_debug\<close>.\<close>

definition do_debug_guards :: "directive list" where
  "do_debug_guards =
    [IfNDef ''_do_debug'' [Error ''_do_debug is not yet #defined''],
     IfElse (LNot (Or (Eq (Ident ''_do_debug'') (Num 0)) (Eq (Ident ''_do_debug'') (Num 1))))
        [Error ''_do_debug is not zero or one'']
        []]"

text \<open>Lines 65 to 73, "MacOS Macros" and "use new PP API".\<close>

definition macos_macros :: "directive list" where
  "macos_macros =
    [Define ''OLDROUTINENAMES'' (Repl (Num 0)),
     Define ''OLDROUTINELOCATIONS'' (Repl (Num 0)),
     Define ''SystemSevenOrLater'' (Repl (Num 1)),
     Define ''PP_Obsolete_Constants'' (Repl (Num 0)),
     Define ''PP_Obsolete_Stream_Creators'' (Repl (Num 0)),
     Define ''PP_Obsolete_Array_API'' (Repl (Num 0))]"

text \<open>Lines 77 to 79, "for MSL": \<^verbatim>\<open>#if 0\<close>.\<close>

definition for_msl :: directive where
  "for_msl = IfElse (Num 0) [Define ''__dest_os'' (Repl (Ident ''__mac_os''))] []"

text \<open>Lines 81 to 116: the debugging flags, by \<^verbatim>\<open>#if _do_debug\<close> ... \<^verbatim>\<open>#else\<close>.\<close>

definition debug_on :: "directive list" where
  "debug_on =
    [Define ''Debug_Throw'' Blank,
     Define ''Debug_Signal'' Blank,
     Define ''PP_DEBUG'' (Repl (Num 1)),
     Define ''PP_SPOTLIGHT_SUPPORT'' (Repl (Num 1)),
     Define ''PP_QC_SUPPORT'' (Repl (Num 0)),
     Define ''PP_DEBUGNEW_SUPPORT'' (Repl (Num 0))]"

definition debug_off :: "directive list" where
  "debug_off =
    [Define ''PP_DEBUG'' (Repl (Num 0)),
     Define ''PP_SPOTLIGHT_SUPPORT'' (Repl (Num 0)),
     Define ''PP_QC_SUPPORT'' (Repl (Num 0)),
     Define ''PP_DEBUGNEW_SUPPORT'' (Repl (Num 0)),
     Define ''DEBUG_NEW'' (Repl (Ident ''DEBUG_NEW_OFF''))]"

definition debug_flags :: directive where
  "debug_flags = IfElse (Ident ''_do_debug'') debug_on debug_off"

text \<open>Lines 121 to 155: the leak log of DebugNew, which renames \<^verbatim>\<open>new\<close>.\<close>

definition new_as_NEW :: "directive list" where
  "new_as_NEW = [Include (Angle ''new.h''), Define ''new'' (Repl (Ident ''NEW''))]"

definition debugnew_leaks :: directive where
  "debugnew_leaks =
    IfElse (Ident ''_do_debug'')
       [IfElse (And (Ident ''PP_DEBUGNEW_SUPPORT'')
                (Eq (Ident ''DEBUG_NEW'') (Ident ''DEBUG_NEW_LEAKS'')))
           new_as_NEW
           []]
       []"

text \<open>Lines 160 to 171: the widget headers.\<close>

definition widget_headers :: "header_ref list" where
  "widget_headers =
    [Angle ''LTable.h'', Angle ''LTableView.h'', Angle ''LTableMultiSelector.h'',
     Angle ''LTableMultiGeometry.h'', Angle ''LTableMonoGeometry.h'', Angle ''LGroupBox.h'',
     Angle ''LIconPane.h'', Angle ''PP_DebugMacros.h'', Angle ''LPopupButton.h'',
     Angle ''UNavServicesDialogs.h'', Angle ''UControlRegistry.h'']"

text \<open>Lines 175 and 177.\<close>

definition closing :: "directive list" where
  "closing = [Include (Quote ''my_notation.h''), Define ''_mac_gui_app'' Blank]"

text \<open>The whole file; line 119 includes \<^verbatim>\<open>PP_Debug.h\<close> between the two debugging blocks.\<close>

definition CommonMachOPrefix :: "directive list" where
  "CommonMachOPrefix =
     mach_o_target @ options @ map Include msl_headers @ [fixeddecimal_guard] @
     no_blockmove @ do_debug_guards @ macos_macros @ [for_msl] @ [debug_flags] @
     [Include (Angle ''PP_Debug.h'')] @ [debugnew_leaks] @
     map Include widget_headers @ closing"

text \<open>
  Preprocessing starts from the macro table that the build hands to the file (the
  definitions made before the prefix file is read) with nothing included or defined yet.
\<close>

definition start :: "macro_table \<Rightarrow> pp_state" where
  "start ms = \<lparr>macros = ms, included = [], defined = []\<rparr>"

definition preprocess :: "headers \<Rightarrow> macro_table \<Rightarrow> failure + pp_state" where
  "preprocess hs ms = run hs CommonMachOPrefix (start ms)"

text \<open>The messages of the \<^verbatim>\<open>#error\<close> directives that a directive contains.\<close>

fun errors_of :: "directive \<Rightarrow> string list" where
  "errors_of (Error msg) = [msg]"
| "errors_of (IfNDef x ds) = concat (map errors_of ds)"
| "errors_of (IfElse c ds es) = concat (map errors_of ds) @ concat (map errors_of es)"
| "errors_of (Define x b) = []"
| "errors_of (Include h) = []"

text \<open>The names of the macros that a directive can define.\<close>

fun names_of :: "directive \<Rightarrow> string list" where
  "names_of (Define x b) = [x]"
| "names_of (IfNDef x ds) = concat (map names_of ds)"
| "names_of (IfElse c ds es) = concat (map names_of ds) @ concat (map names_of es)"
| "names_of (Include h) = []"
| "names_of (Error msg) = []"

subsection \<open>Notions for the statements\<close>

text \<open>
  The outside headers \<open>hs\<close> keep the macros \<open>xs\<close>: processing a header neither defines,
  redefines nor undefines any of them.
\<close>

definition keeps :: "headers \<Rightarrow> string list \<Rightarrow> bool" where
  "keeps hs xs =
     (\<forall>h ms ms'. hs h ms = Some ms' \<longrightarrow> (\<forall>x\<in>set xs. map_of ms' x = map_of ms x))"

text \<open>The outside headers \<open>hl\<close> can be processed, whatever the macro table is.\<close>

definition provides :: "headers \<Rightarrow> header_ref list \<Rightarrow> bool" where
  "provides hs hl = (\<forall>h\<in>set hl. \<forall>m. hs h m \<noteq> None)"

text \<open>
  In state \<open>st\<close> the macro \<open>x\<close> has the body that this file gave it last, or else the
  one it had in the table \<open>ms\<close> of the start.
\<close>

definition follows :: "macro_table \<Rightarrow> string \<Rightarrow> pp_state \<Rightarrow> bool" where
  "follows ms x st =
     (map_of (macros st) x =
       (case map_of (rev (defined st)) x of Some b \<Rightarrow> Some b | None \<Rightarrow> map_of ms x))"

text \<open>Directives without a condition, and what a list of them defines and includes.\<close>

fun plain :: "directive \<Rightarrow> bool" where
  "plain (Define x b) = True"
| "plain (Include h) = True"
| "plain (Error msg) = False"
| "plain (IfNDef x ds) = False"
| "plain (IfElse c ds es) = False"

fun defs_of :: "directive list \<Rightarrow> (string \<times> body) list" where
  "defs_of [] = []"
| "defs_of (Define x b # ds) = (x, b) # defs_of ds"
| "defs_of (d # ds) = defs_of ds"

fun incs_of :: "directive list \<Rightarrow> header_ref list" where
  "incs_of [] = []"
| "incs_of (Include h # ds) = h # incs_of ds"
| "incs_of (d # ds) = incs_of ds"

text \<open>
  The definitions and the inclusions of a whole run, by the outcome of its three tests:
  the value \<open>v\<close> of \<^verbatim>\<open>_do_debug\<close>, whether \<^verbatim>\<open>FIXEDDECIMAL\<close> was undefined at
  line 40 (\<open>fd\<close>) and whether the condition of line 149 held (\<open>nw\<close>).
\<close>

definition made_defs :: "64 word \<Rightarrow> bool \<Rightarrow> bool \<Rightarrow> (string \<times> body) list" where
  "made_defs v fd nw =
     defs_of mach_o_target @ defs_of options @
     (if fd then [(''FIXEDDECIMAL'', Repl (Num 1))] else []) @
     defs_of no_blockmove @ defs_of macos_macros @
     (if v = 0 then defs_of debug_off else defs_of debug_on) @
     (if nw then defs_of new_as_NEW else []) @ defs_of closing"

definition made_incs :: "bool \<Rightarrow> header_ref list" where
  "made_incs nw =
     msl_headers @ [Angle ''PP_Debug.h''] @ (if nw then incs_of new_as_NEW else []) @
     widget_headers @ incs_of closing"

text \<open>
  An instance of the outside headers for the closed instances below: \<^verbatim>\<open>fp.h\<close> defines
  \<^verbatim>\<open>FLOATDECIMAL\<close>, every other header leaves the macro table as it is.
\<close>

definition sample_headers :: headers where
  "sample_headers h ms =
     (if h = Angle ''fp.h'' then Some (AList.update ''FLOATDECIMAL'' (Repl (Num 0)) ms)
      else Some ms)"

definition build_with :: "64 word \<Rightarrow> macro_table" where
  "build_with v = [(''_do_debug'', Repl (Num v))]"

section \<open>Properties of the interpreter\<close>

lemma run_append:
  "run hs (ds @ es) st =
     (case run hs ds st of Inl e \<Rightarrow> Inl e | Inr st' \<Rightarrow> run hs es st')"
  by (induction ds arbitrary: st) (auto split: sum.splits)

lemma run_appendE:
  assumes "run hs (ds @ es) st = Inr st'"
  obtains s where "run hs ds st = Inr s" and "run hs es s = Inr st'"
  using assms by (auto simp: run_append split: sum.splits)

lemma keeps_mono: "keeps hs xs \<Longrightarrow> set ys \<subseteq> set xs \<Longrightarrow> keeps hs ys"
  by (auto simp: keeps_def)

text \<open>A macro that the outside headers keep follows the definitions of this file.\<close>

lemma follows_start: "follows ms x (start ms)"
  by (simp add: follows_def start_def)

lemma follows_exec_run:
  shows "exec hs d st = Inr st' \<Longrightarrow> keeps hs [x] \<Longrightarrow> follows ms x st \<Longrightarrow> follows ms x st'"
    and "run hs ds st = Inr st' \<Longrightarrow> keeps hs [x] \<Longrightarrow> follows ms x st \<Longrightarrow> follows ms x st'"
proof (induction hs d st and hs ds st arbitrary: st' and st' rule: exec_run.induct)
  case (1 hs y b st)
  then show ?case
    by (auto simp: follows_def AList.update_conv')
next
  case (2 hs h st)
  from "2.prems"(1) obtain m where m: "hs h (macros st) = Some m"
    and st': "st' = st\<lparr>macros := m, included := included st @ [h]\<rparr>"
    by (auto split: option.splits)
  from "2.prems"(2) m have "map_of m x = map_of (macros st) x"
    by (auto simp: keeps_def)
  with "2.prems"(3) st' show ?case
    by (simp add: follows_def)
next
  case (3 hs msg st)
  then show ?case by simp
next
  case (4 hs y ds st)
  then show ?case by (auto split: if_splits)
next
  case (5 hs c ds es st)
  then show ?case by (auto split: option.splits if_splits)
next
  case (6 hs st)
  then show ?case by simp
next
  case (7 hs d ds st)
  then show ?case by (auto split: sum.splits)
qed

lemma follows_preprocess:
  "preprocess hs ms = Inr st \<Longrightarrow> keeps hs [x] \<Longrightarrow> follows ms x st"
  unfolding preprocess_def by (blast intro: follows_exec_run(2) follows_start)

lemma followsD:
  "follows ms x s \<Longrightarrow> defined s = l \<Longrightarrow>
     map_of (macros s) x = (case map_of (rev l) x of Some b \<Rightarrow> Some b | None \<Rightarrow> map_of ms x)"
  by (simp add: follows_def)

text \<open>A macro that neither the directives nor the outside headers define stays as it is.\<close>

lemma stable_exec_run:
  shows "exec hs d st = Inr st' \<Longrightarrow> keeps hs [x] \<Longrightarrow> x \<notin> set (names_of d) \<Longrightarrow>
           map_of (macros st') x = map_of (macros st) x"
    and "run hs ds st = Inr st' \<Longrightarrow> keeps hs [x] \<Longrightarrow> x \<notin> set (concat (map names_of ds)) \<Longrightarrow>
           map_of (macros st') x = map_of (macros st) x"
proof (induction hs d st and hs ds st arbitrary: st' and st' rule: exec_run.induct)
  case (1 hs y b st)
  then show ?case
    by (auto simp: AList.update_conv')
next
  case (2 hs h st)
  then show ?case
    by (auto simp: keeps_def split: option.splits)
next
  case (3 hs msg st)
  then show ?case by simp
next
  case (4 hs y ds st)
  then show ?case by (auto split: if_splits)
next
  case (5 hs c ds es st)
  then show ?case by (auto split: option.splits if_splits)
next
  case (6 hs st)
  then show ?case by simp
next
  case (7 hs d ds st)
  from "7.prems"(1) obtain s where s: "exec hs d st = Inr s" and r: "run hs ds s = Inr st'"
    by (auto split: sum.splits)
  from "7.prems"(3) have "x \<notin> set (names_of d)" and "x \<notin> set (concat (map names_of ds))"
    by auto
  with "7.IH"(1) [OF s "7.prems"(2)] "7.IH"(2) [OF s r "7.prems"(2)] show ?case
    by simp
qed

text \<open>Directives without a condition add their definitions and inclusions in order.\<close>

lemma run_plain:
  "\<forall>d\<in>set ds. plain d \<Longrightarrow> run hs ds st = Inr st' \<Longrightarrow>
     defined st' = defined st @ defs_of ds \<and> included st' = included st @ incs_of ds"
proof (induction ds arbitrary: st)
  case Nil
  then show ?case by simp
next
  case (Cons d ds)
  then show ?case
    by (cases d) (auto split: sum.splits option.splits)
qed

lemma run_plain_total:
  "\<forall>d\<in>set ds. plain d \<Longrightarrow> \<forall>h\<in>set (incs_of ds). \<forall>m. hs h m \<noteq> None \<Longrightarrow>
     \<exists>s. run hs ds st = Inr s"
proof (induction ds arbitrary: st)
  case Nil
  then show ?case by simp
next
  case (Cons d ds)
  show ?case
  proof (cases d)
    case (Define x b)
    with Cons show ?thesis by simp
  next
    case (Include h)
    with Cons.prems(2) obtain m where "hs h (macros st) = Some m"
      by fastforce
    with Include Cons show ?thesis by simp
  qed (use Cons.prems in auto)
qed

lemma defs_of_append: "defs_of (ds @ es) = defs_of ds @ defs_of es"
  by (induction ds rule: defs_of.induct) auto

lemma incs_of_append: "incs_of (ds @ es) = incs_of ds @ incs_of es"
  by (induction ds rule: incs_of.induct) auto

lemma defs_of_Include: "defs_of (map Include hl) = []"
  by (induction hl) auto

lemma incs_of_Include: "incs_of (map Include hl) = hl"
  by (induction hl) auto

lemma plain_stage:
  assumes "run hs (ds @ rest) st = Inr st'" and "\<forall>d\<in>set ds. plain d"
  obtains s where "run hs ds st = Inr s" and "run hs rest s = Inr st'"
    and "defined s = defined st @ defs_of ds" and "included s = included st @ incs_of ds"
proof -
  from assms(1) obtain s where s: "run hs ds st = Inr s" "run hs rest s = Inr st'"
    by (rule run_appendE)
  from run_plain [OF assms(2) s(1)] s that show thesis
    by blast
qed

text \<open>Only an \<^verbatim>\<open>#error\<close> directive fails as one.\<close>

lemma no_error_exec_run:
  shows "errors_of d = [] \<Longrightarrow> exec hs d st \<noteq> Inl (ErrorDirective msg)"
    and "concat (map errors_of ds) = [] \<Longrightarrow> run hs ds st \<noteq> Inl (ErrorDirective msg)"
proof (induction hs d st and hs ds st rule: exec_run.induct)
  case (2 hs h st)
  then show ?case by (auto split: option.splits)
next
  case (5 hs c ds es st)
  then show ?case by (auto split: option.splits)
next
  case (7 hs d ds st)
  then show ?case by (auto split: sum.splits)
qed auto

section \<open>The runs of the file\<close>

lemmas segment_defs =
  mach_o_target_def options_def msl_headers_def no_blockmove_def macos_macros_def
  debug_on_def debug_off_def new_as_NEW_def widget_headers_def closing_def

text \<open>
  A run that succeeds with \<^verbatim>\<open>_do_debug\<close> defined as the literal \<open>v\<close> had \<open>v\<close> 0 or 1, and
  made the definitions and inclusions that the outcomes of its tests select.
\<close>

lemma expansion:
  assumes ok: "preprocess hs ms = Inr st"
    and dd: "map_of ms ''_do_debug'' = Some (Repl (Num v))"
    and kd: "keeps hs [''_do_debug'']"
  shows "(v = 0 \<or> v = 1) \<and>
    (\<exists>fd nw. defined st = made_defs v fd nw \<and> included st = made_incs nw \<and>
       (keeps hs [''FIXEDDECIMAL''] \<longrightarrow> fd = (map_of ms ''FIXEDDECIMAL'' = None)) \<and>
       (keeps hs [''PP_DEBUGNEW_SUPPORT''] \<longrightarrow> \<not> nw))"
proof -
  let ?dd = "''_do_debug''" and ?fd = "''FIXEDDECIMAL''" and ?dn = "''PP_DEBUGNEW_SUPPORT''"
  note fr = follows_exec_run(2) and fe = follows_exec_run(1)
  \<comment> \<open>lines 9 to 36\<close>
  let ?A = "mach_o_target @ options @ map Include msl_headers"
  let ?R1 = "fixeddecimal_guard # no_blockmove @ do_debug_guards @ macos_macros @
     for_msl # debug_flags # Include (Angle ''PP_Debug.h'') # debugnew_leaks #
     map Include widget_headers @ closing"
  have "CommonMachOPrefix = ?A @ ?R1"
    by (simp add: CommonMachOPrefix_def)
  with ok have "run hs (?A @ ?R1) (start ms) = Inr st"
    by (simp add: preprocess_def)
  moreover have "\<forall>d\<in>set ?A. plain d"
    by (auto simp: segment_defs)
  ultimately obtain s1 where r1: "run hs ?A (start ms) = Inr s1" and n1: "run hs ?R1 s1 = Inr st"
    and d1: "defined s1 = defs_of mach_o_target @ defs_of options"
    and i1: "included s1 = msl_headers"
    by (rule plain_stage)
       (simp add: start_def defs_of_append incs_of_append defs_of_Include incs_of_Include
          mach_o_target_def options_def)
  have f1: "keeps hs [x] \<Longrightarrow> follows ms x s1" for x
    using r1 by (blast intro: fr follows_start)
  \<comment> \<open>lines 40 to 42\<close>
  let ?R2 = "no_blockmove @ do_debug_guards @ macos_macros @
     for_msl # debug_flags # Include (Angle ''PP_Debug.h'') # debugnew_leaks #
     map Include widget_headers @ closing"
  define fd where "fd = (map_of (macros s1) ?fd = None)"
  from n1 obtain s2 where e2: "exec hs fixeddecimal_guard s1 = Inr s2"
    and n2: "run hs ?R2 s2 = Inr st"
    by (auto split: sum.splits)
  have fd1: "fd = (map_of ms ?fd = None)" if "keeps hs [?fd]"
    using followsD [OF f1 [OF that] d1] by (simp add: fd_def mach_o_target_def options_def)
  from e2 have d2: "defined s2 = defined s1 @ (if fd then [(?fd, Repl (Num 1))] else [])"
    and i2: "included s2 = included s1"
    by (auto simp: fixeddecimal_guard_def fd_def split: if_splits)
  have f2: "keeps hs [x] \<Longrightarrow> follows ms x s2" for x
    using e2 f1 by (blast intro: fe)
  \<comment> \<open>line 46\<close>
  let ?R3 = "do_debug_guards @ macos_macros @
     for_msl # debug_flags # Include (Angle ''PP_Debug.h'') # debugnew_leaks #
     map Include widget_headers @ closing"
  have "\<forall>d\<in>set no_blockmove. plain d"
    by (simp add: no_blockmove_def)
  with n2 obtain s3 where r3: "run hs no_blockmove s2 = Inr s3" and n3: "run hs ?R3 s3 = Inr st"
    and d3: "defined s3 = defined s2 @ defs_of no_blockmove"
    and i3: "included s3 = included s2"
    by (rule plain_stage) (simp add: no_blockmove_def)
  have f3: "keeps hs [x] \<Longrightarrow> follows ms x s3" for x
    using r3 f2 by (blast intro: fr)
  \<comment> \<open>lines 54 to 60\<close>
  have dd3: "map_of (macros s3) ?dd = Some (Repl (Num v))"
    using followsD [OF f3 [OF kd] d3] dd
    by (simp add: d2 d1 mach_o_target_def options_def no_blockmove_def)
  let ?R4 = "macos_macros @
     for_msl # debug_flags # Include (Angle ''PP_Debug.h'') # debugnew_leaks #
     map Include widget_headers @ closing"
  from n3 dd3 have v: "v = 0 \<or> v = 1" and n4: "run hs ?R4 s3 = Inr st"
    by (auto simp: do_debug_guards_def split: if_splits)
  \<comment> \<open>lines 65 to 79\<close>
  let ?R5 = "for_msl # debug_flags # Include (Angle ''PP_Debug.h'') # debugnew_leaks #
     map Include widget_headers @ closing"
  have "\<forall>d\<in>set macos_macros. plain d"
    by (simp add: macos_macros_def)
  with n4 obtain s5 where r5: "run hs macos_macros s3 = Inr s5" and n5: "run hs ?R5 s5 = Inr st"
    and d5: "defined s5 = defined s3 @ defs_of macos_macros"
    and i5: "included s5 = included s3"
    by (rule plain_stage) (simp add: macos_macros_def)
  have f5: "keeps hs [x] \<Longrightarrow> follows ms x s5" for x
    using r5 f3 by (blast intro: fr)
  have dd5: "map_of (macros s5) ?dd = Some (Repl (Num v))"
    using followsD [OF f5 [OF kd] d5] dd
    by (simp add: d3 d2 d1 mach_o_target_def options_def no_blockmove_def macos_macros_def)
  \<comment> \<open>lines 81 to 116\<close>
  let ?R7 = "Include (Angle ''PP_Debug.h'') # debugnew_leaks #
     map Include widget_headers @ closing"
  let ?flags = "if v = 0 then debug_off else debug_on"
  from n5 dd5 v obtain s7 where r7: "run hs ?flags s5 = Inr s7" and n7: "run hs ?R7 s7 = Inr st"
    by (auto simp: for_msl_def debug_flags_def split: sum.splits)
  have "\<forall>d\<in>set ?flags. plain d"
    by (simp add: debug_on_def debug_off_def)
  from run_plain [OF this r7]
  have d7: "defined s7 = defined s5 @ defs_of ?flags" and i7: "included s7 = included s5"
    by (simp_all add: debug_on_def debug_off_def)
  have f7: "keeps hs [x] \<Longrightarrow> follows ms x s7" for x
    using r7 f5 by (blast intro: fr)
  \<comment> \<open>line 119\<close>
  let ?R8 = "debugnew_leaks # map Include widget_headers @ closing"
  from n7 obtain s8 where e8: "exec hs (Include (Angle ''PP_Debug.h'')) s7 = Inr s8"
    and n8: "run hs ?R8 s8 = Inr st"
    by (auto split: sum.splits)
  from e8 have d8: "defined s8 = defined s7"
    and i8: "included s8 = included s7 @ [Angle ''PP_Debug.h'']"
    by (auto split: option.splits)
  have f8: "keeps hs [x] \<Longrightarrow> follows ms x s8" for x
    using e8 f7 by (blast intro: fe)
  \<comment> \<open>lines 121 to 155\<close>
  have dd8: "map_of (macros s8) ?dd = Some (Repl (Num v))"
    using followsD [OF f8 [OF kd] d8] dd
    by (simp add: d7 d5 d3 d2 d1 segment_defs)
  have dn8: "map_of (macros s8) ?dn = Some (Repl (Num 0))" if "keeps hs [?dn]"
    using followsD [OF f8 [OF that] d8]
    by (simp add: d7 d5 d3 d2 d1 segment_defs)
  let ?R9 = "map Include widget_headers @ closing"
  let ?c = "And (Ident ?dn) (Eq (Ident ''DEBUG_NEW'') (Ident ''DEBUG_NEW_LEAKS''))"
  have "\<exists>nw s9. run hs ?R9 s9 = Inr st \<and>
      defined s9 = defined s8 @ (if nw then defs_of new_as_NEW else []) \<and>
      included s9 = included s8 @ (if nw then incs_of new_as_NEW else []) \<and>
      (keeps hs [?dn] \<longrightarrow> \<not> nw)"
  proof (cases "v = 0")
    case True
    with n8 dd8 have "run hs ?R9 s8 = Inr st"
      by (simp add: debugnew_leaks_def)
    then show ?thesis
      by (intro exI [of _ False] exI [of _ s8]) simp
  next
    case False
    with n8 dd8 obtain n where c: "eval (macros s8) ?c = Some n"
      and rn: "run hs ((if n \<noteq> 0 then new_as_NEW else []) @ ?R9) s8 = Inr st"
      by (auto simp: debugnew_leaks_def run_append split: sum.splits option.splits if_splits)
    have zero: "n = 0" if "keeps hs [?dn]"
      using c dn8 [OF that] by (auto split: option.splits)
    show ?thesis
    proof (cases "n = 0")
      case True
      with rn show ?thesis
        by (intro exI [of _ False] exI [of _ s8]) simp
    next
      case False
      with rn have "run hs (new_as_NEW @ ?R9) s8 = Inr st"
        by simp
      moreover have "\<forall>d\<in>set new_as_NEW. plain d"
        by (simp add: new_as_NEW_def)
      ultimately obtain s9 where "run hs ?R9 s9 = Inr st"
        and "defined s9 = defined s8 @ defs_of new_as_NEW"
        and "included s9 = included s8 @ incs_of new_as_NEW"
        by (rule plain_stage)
      with False zero show ?thesis
        by (intro exI [of _ True] exI [of _ s9]) auto
    qed
  qed
  then obtain nw s9 where n9: "run hs ?R9 s9 = Inr st"
    and d9: "defined s9 = defined s8 @ (if nw then defs_of new_as_NEW else [])"
    and i9: "included s9 = included s8 @ (if nw then incs_of new_as_NEW else [])"
    and nw: "keeps hs [?dn] \<longrightarrow> \<not> nw"
    by blast
  \<comment> \<open>lines 160 to 177\<close>
  have "\<forall>d\<in>set ?R9. plain d"
    by (auto simp: closing_def)
  from run_plain [OF this n9]
  have d10: "defined st = defined s9 @ defs_of closing"
    and i10: "included st = included s9 @ widget_headers @ incs_of closing"
    by (simp_all add: defs_of_append incs_of_append defs_of_Include incs_of_Include)
  have "defined st = made_defs v fd nw"
    by (simp add: made_defs_def d10 d9 d8 d7 d5 d3 d2 d1)
  moreover have "included st = made_incs nw"
    by (simp add: made_incs_def i10 i9 i8 i7 i5 i3 i2 i1)
  ultimately show ?thesis
    using v fd1 nw by blast
qed

text \<open>Two runs of the file with the sample headers.\<close>

lemma release_build:
  "preprocess sample_headers (build_with 0) =
    Inr \<lparr>macros = build_with 0 @ defs_of mach_o_target @ defs_of options @
           [(''FLOATDECIMAL'', Repl (Num 0)), (''FIXEDDECIMAL'', Repl (Num 1))] @
           defs_of no_blockmove @ defs_of macos_macros @ defs_of debug_off @ defs_of closing,
         included = made_incs False, defined = made_defs 0 True False\<rparr>"
  by code_simp

lemma debug_build:
  "preprocess sample_headers (build_with 1) =
    Inr \<lparr>macros = build_with 1 @ defs_of mach_o_target @ defs_of options @
           [(''FLOATDECIMAL'', Repl (Num 0)), (''FIXEDDECIMAL'', Repl (Num 1))] @
           defs_of no_blockmove @ defs_of macos_macros @ defs_of debug_on @ defs_of closing,
         included = made_incs False, defined = made_defs 1 True False\<rparr>"
  by code_simp

lemma preset_build:
  "preprocess sample_headers ((''FIXEDDECIMAL'', Repl (Num 2)) # build_with 1) =
    Inr \<lparr>macros = (''FIXEDDECIMAL'', Repl (Num 2)) # build_with 1 @ defs_of mach_o_target @
           defs_of options @ [(''FLOATDECIMAL'', Repl (Num 0))] @
           defs_of no_blockmove @ defs_of macos_macros @ defs_of debug_on @ defs_of closing,
         included = made_incs False, defined = made_defs 1 False False\<rparr>"
  by code_simp



text \<open>
  Literals out of range: \<^verbatim>\<open>18446744073709551616\<close> has the value 0 and
  \<^verbatim>\<open>-18446744073709551615\<close> the value 1, so the file is read with them as with 0 and 1.
\<close>

lemma wrapped_literals:
  "build_with (2 ^ 64) = build_with 0" "build_with (- (2 ^ 64 - 1)) = build_with 1"
  by (simp_all add: build_with_def)

lemma sample_keeps: "''FLOATDECIMAL'' \<notin> set xs \<Longrightarrow> keeps sample_headers xs"
  by (auto simp: keeps_def sample_headers_def AList.update_conv' split: if_splits)


lemmas all_defs = segment_defs fixeddecimal_guard_def do_debug_guards_def for_msl_def
  debug_flags_def debugnew_leaks_def

lemma provides_sample: "provides sample_headers hl"
  by (simp add: provides_def sample_headers_def)

section \<open>The claims\<close>

text \<open>
  C1, as amended. With \<^verbatim>\<open>_do_debug\<close> undefined or defined as an integer literal,
  preprocessing the file fails at an \<^verbatim>\<open>#error\<close> directive if and only if \<^verbatim>\<open>_do_debug\<close>
  is undefined or its value is neither 0 nor 1: the first directive fires when it is
  undefined, the second when its value is neither 0 nor 1, and with the value 0 or 1
  neither fires. With \<^verbatim>\<open>_do_debug\<close> defined with an empty body preprocessing fails too,
  but at the malformed condition of line 58 and not at an \<^verbatim>\<open>#error\<close> directive. The file
  has the two \<^verbatim>\<open>#error\<close> directives and no other. The four headers included before line
  54 can be processed and leave \<^verbatim>\<open>_do_debug\<close> as it is.
\<close>

theorem do_debug_guard:
  assumes inc: "provides hs msl_headers"
    and kd: "keeps hs [''_do_debug'']"
    and cfg: "map_of ms ''_do_debug'' = None \<or> map_of ms ''_do_debug'' = Some Blank \<or>
              (\<exists>v. map_of ms ''_do_debug'' = Some (Repl (Num v)))"
  shows "((\<exists>msg. preprocess hs ms = Inl (ErrorDirective msg)) \<longleftrightarrow>
            (map_of ms ''_do_debug'' = None \<or>
             (\<exists>v. map_of ms ''_do_debug'' = Some (Repl (Num v)) \<and> v \<noteq> 0 \<and> v \<noteq> 1))) \<and>
         (map_of ms ''_do_debug'' = None \<longrightarrow>
            preprocess hs ms = Inl (ErrorDirective ''_do_debug is not yet #defined'')) \<and>
         (\<forall>v. map_of ms ''_do_debug'' = Some (Repl (Num v)) \<and> v \<noteq> 0 \<and> v \<noteq> 1 \<longrightarrow>
            preprocess hs ms = Inl (ErrorDirective ''_do_debug is not zero or one'')) \<and>
         (map_of ms ''_do_debug'' = Some Blank \<longrightarrow> preprocess hs ms = Inl BadCondition) \<and>
         concat (map errors_of CommonMachOPrefix) =
           [''_do_debug is not yet #defined'', ''_do_debug is not zero or one'']"
proof -
  let ?dd = "''_do_debug''"
  let ?A = "mach_o_target @ options @ map Include msl_headers"
  let ?P = "?A @ fixeddecimal_guard # no_blockmove"
  let ?R = "macos_macros @ for_msl # debug_flags # Include (Angle ''PP_Debug.h'') #
     debugnew_leaks # map Include widget_headers @ closing"
  have H: "CommonMachOPrefix = ?P @ do_debug_guards @ ?R"
    by (simp add: CommonMachOPrefix_def)
  have "\<forall>d\<in>set ?A. plain d"
    by (auto simp: segment_defs)
  moreover from inc have "\<forall>h\<in>set (incs_of ?A). \<forall>m. hs h m \<noteq> None"
    by (simp add: incs_of_append incs_of_Include provides_def mach_o_target_def options_def)
  ultimately obtain s1 where s1: "run hs ?A (start ms) = Inr s1"
    using run_plain_total by blast
  have "\<exists>s3. run hs (fixeddecimal_guard # no_blockmove) s1 = Inr s3"
    by (simp add: fixeddecimal_guard_def no_blockmove_def)
  then obtain s3 where s3: "run hs (fixeddecimal_guard # no_blockmove) s1 = Inr s3" ..
  from s1 s3 have p: "run hs ?P (start ms) = Inr s3"
    using run_append [of hs ?A "fixeddecimal_guard # no_blockmove" "start ms"] by simp
  have "?dd \<notin> set (concat (map names_of ?P))"
    by (simp add: all_defs)
  from stable_exec_run(2) [OF p kd this]
  have dd3: "map_of (macros s3) ?dd = map_of ms ?dd"
    by (simp add: start_def)
  from p have pre: "preprocess hs ms = run hs (do_debug_guards @ ?R) s3"
    using run_append [of hs ?P "do_debug_guards @ ?R" "start ms"]
    by (simp only: preprocess_def H sum.case)
  have undef: "preprocess hs ms = Inl (ErrorDirective ''_do_debug is not yet #defined'')"
    if "map_of ms ?dd = None"
    using that dd3 by (simp add: pre do_debug_guards_def)
  have blank: "preprocess hs ms = Inl BadCondition"
    if "map_of ms ?dd = Some Blank"
    using that dd3 by (simp add: pre do_debug_guards_def)
  have other: "preprocess hs ms = Inl (ErrorDirective ''_do_debug is not zero or one'')"
    if "map_of ms ?dd = Some (Repl (Num v))" "v \<noteq> 0" "v \<noteq> 1" for v
    using that dd3 by (simp add: pre do_debug_guards_def)
  have fine: "preprocess hs ms \<noteq> Inl (ErrorDirective msg)"
    if "map_of ms ?dd = Some (Repl (Num v))" "v = 0 \<or> v = 1" for v msg
  proof -
    from that dd3 have "preprocess hs ms = run hs ?R s3"
      by (auto simp: pre do_debug_guards_def)
    moreover have "concat (map errors_of ?R) = []"
      by (simp add: all_defs)
    ultimately show ?thesis
      by (simp add: no_error_exec_run(2))
  qed
  have "concat (map errors_of CommonMachOPrefix) =
      [''_do_debug is not yet #defined'', ''_do_debug is not zero or one'']"
    by (simp add: CommonMachOPrefix_def all_defs)
  with undef blank other fine cfg show ?thesis
    by (elim disjE exE) auto
qed

theorem do_debug_guard_witness:
  "provides sample_headers msl_headers \<and> keeps sample_headers [''_do_debug''] \<and>
   map_of (build_with 2) ''_do_debug'' = Some (Repl (Num 2)) \<and>
   preprocess sample_headers (build_with 2) =
     Inl (ErrorDirective ''_do_debug is not zero or one'')"
  using do_debug_guard [of sample_headers "build_with 2"]
  by (simp add: provides_sample sample_keeps build_with_def)

text \<open>
  The claim C1 as it stands fails: with \<^verbatim>\<open>_do_debug\<close> defined with an empty body
  (\<^verbatim>\<open>#define _do_debug\<close>) the macro is defined and has neither the value 0 nor the value
  1, and preprocessing fails, but at the malformed condition of line 58
  (\<^verbatim>\<open>!(==0 || ==1)\<close>) and not at an \<^verbatim>\<open>#error\<close> directive.
\<close>

theorem do_debug_guard_counterexample:
  "map_of [(''_do_debug'', Blank)] ''_do_debug'' = Some Blank \<and>
   preprocess sample_headers [(''_do_debug'', Blank)] = Inl BadCondition"
  by code_simp

text \<open>
  C2. In every successful expansion the target macros select Carbon and not Classic:
  \<^verbatim>\<open>PP_Target_Carbon\<close>, \<^verbatim>\<open>TARGET_API_MAC_CARBON\<close> and \<^verbatim>\<open>TARGET_API_MAC_OSX\<close> have the
  value 1, \<^verbatim>\<open>PP_Target_Classic\<close> and \<^verbatim>\<open>TARGET_API_MAC_OS8\<close> the value 0, so exactly
  one of the pair Carbon and Classic is enabled. The outside headers leave the five
  macros as they are.
\<close>

theorem target_is_carbon:
  assumes ok: "preprocess hs ms = Inr st"
    and k: "keeps hs [''PP_Target_Carbon'', ''PP_Target_Classic'', ''TARGET_API_MAC_CARBON'',
                     ''TARGET_API_MAC_OS8'', ''TARGET_API_MAC_OSX'']"
  shows "eval (macros st) (Ident ''PP_Target_Carbon'') = Some 1 \<and>
         eval (macros st) (Ident ''PP_Target_Classic'') = Some 0 \<and>
         eval (macros st) (Ident ''TARGET_API_MAC_CARBON'') = Some 1 \<and>
         eval (macros st) (Ident ''TARGET_API_MAC_OS8'') = Some 0 \<and>
         eval (macros st) (Ident ''TARGET_API_MAC_OSX'') = Some 1"
proof -
  let ?R = "options @ map Include msl_headers @ fixeddecimal_guard # no_blockmove @
     do_debug_guards @ macos_macros @ for_msl # debug_flags #
     Include (Angle ''PP_Debug.h'') # debugnew_leaks # map Include widget_headers @ closing"
  have "CommonMachOPrefix = mach_o_target @ ?R"
    by (simp add: CommonMachOPrefix_def)
  with ok have "run hs (mach_o_target @ ?R) (start ms) = Inr st"
    by (simp add: preprocess_def)
  then obtain s where s: "run hs mach_o_target (start ms) = Inr s"
    and r: "run hs ?R s = Inr st"
    by (rule run_appendE)
  have st: "map_of (macros st) x = map_of (macros s) x"
    if "x \<in> set (concat (map names_of mach_o_target))" for x
  proof -
    from that k have "keeps hs [x]"
      by (auto simp: mach_o_target_def elim: keeps_mono)
    moreover from that have "x \<notin> set (concat (map names_of ?R))"
      by (auto simp: all_defs)
    ultimately show ?thesis
      using r by (rule stable_exec_run(2) [rotated])
  qed
  from s have "macros s = fold (\<lambda>(x, b). AList.update x b) (defs_of mach_o_target) ms"
    by (auto simp: mach_o_target_def start_def)
  then have
    "map_of (macros st) ''PP_Target_Carbon'' = Some (Repl (Num 1))"
    "map_of (macros st) ''PP_Target_Classic'' = Some (Repl (LNot (Ident ''PP_Target_Carbon'')))"
    "map_of (macros st) ''TARGET_API_MAC_CARBON'' = Some (Repl (Ident ''PP_Target_Carbon''))"
    "map_of (macros st) ''TARGET_API_MAC_OS8'' = Some (Repl (Ident ''PP_Target_Classic''))"
    "map_of (macros st) ''TARGET_API_MAC_OSX'' = Some (Repl (Ident ''PP_Target_Carbon''))"
    by (simp_all add: st mach_o_target_def AList.update_conv')
  then show ?thesis
    by simp
qed

theorem target_is_carbon_witness:
  "\<exists>st. preprocess sample_headers (build_with 0) = Inr st \<and>
     keeps sample_headers [''PP_Target_Carbon'', ''PP_Target_Classic'',
       ''TARGET_API_MAC_CARBON'', ''TARGET_API_MAC_OS8'', ''TARGET_API_MAC_OSX''] \<and>
     eval (macros st) (Ident ''PP_Target_Carbon'') = Some 1 \<and>
     eval (macros st) (Ident ''PP_Target_Classic'') = Some 0 \<and>
     eval (macros st) (Ident ''TARGET_API_MAC_CARBON'') = Some 1 \<and>
     eval (macros st) (Ident ''TARGET_API_MAC_OS8'') = Some 0 \<and>
     eval (macros st) (Ident ''TARGET_API_MAC_OSX'') = Some 1"
proof -
  have k: "keeps sample_headers [''PP_Target_Carbon'', ''PP_Target_Classic'',
       ''TARGET_API_MAC_CARBON'', ''TARGET_API_MAC_OS8'', ''TARGET_API_MAC_OSX'']"
    by (simp add: sample_keeps)
  from target_is_carbon [OF release_build k] release_build k show ?thesis
    by blast
qed


text \<open>
  C3. The debugging flags follow \<^verbatim>\<open>_do_debug\<close>: with the value 1, \<^verbatim>\<open>PP_DEBUG\<close> and
  \<^verbatim>\<open>PP_SPOTLIGHT_SUPPORT\<close> are 1; with the value 0 both are 0 and \<^verbatim>\<open>DEBUG_NEW\<close> is
  \<^verbatim>\<open>DEBUG_NEW_OFF\<close>; in both cases \<^verbatim>\<open>PP_QC_SUPPORT\<close> and \<^verbatim>\<open>PP_DEBUGNEW_SUPPORT\<close>
  are 0. The run succeeds, \<^verbatim>\<open>_do_debug\<close> is an integer literal, and the outside headers
  leave it and the flags as they are.
\<close>

theorem debug_flags_follow_do_debug:
  assumes ok: "preprocess hs ms = Inr st"
    and dd: "map_of ms ''_do_debug'' = Some (Repl (Num v))"
    and k: "keeps hs [''_do_debug'', ''PP_DEBUG'', ''PP_SPOTLIGHT_SUPPORT'', ''PP_QC_SUPPORT'',
                     ''PP_DEBUGNEW_SUPPORT'', ''DEBUG_NEW'']"
  shows "(v = 1 \<longrightarrow>
            map_of (macros st) ''PP_DEBUG'' = Some (Repl (Num 1)) \<and>
            map_of (macros st) ''PP_SPOTLIGHT_SUPPORT'' = Some (Repl (Num 1))) \<and>
         (v = 0 \<longrightarrow>
            map_of (macros st) ''PP_DEBUG'' = Some (Repl (Num 0)) \<and>
            map_of (macros st) ''PP_SPOTLIGHT_SUPPORT'' = Some (Repl (Num 0)) \<and>
            map_of (macros st) ''DEBUG_NEW'' = Some (Repl (Ident ''DEBUG_NEW_OFF''))) \<and>
         map_of (macros st) ''PP_QC_SUPPORT'' = Some (Repl (Num 0)) \<and>
         map_of (macros st) ''PP_DEBUGNEW_SUPPORT'' = Some (Repl (Num 0)) \<and>
         (v = 0 \<or> v = 1)"
proof -
  from k have kd: "keeps hs [''_do_debug'']"
    by (auto elim: keeps_mono)
  from expansion [OF ok dd kd] obtain fd nw where v: "v = 0 \<or> v = 1"
    and d: "defined st = made_defs v fd nw"
    by blast
  have look: "map_of (macros st) x =
      (case map_of (rev (made_defs v fd nw)) x of Some b \<Rightarrow> Some b | None \<Rightarrow> map_of ms x)"
    if "x \<in> set [''PP_DEBUG'', ''PP_SPOTLIGHT_SUPPORT'', ''PP_QC_SUPPORT'',
                  ''PP_DEBUGNEW_SUPPORT'', ''DEBUG_NEW'']" for x
  proof -
    from that k have "keeps hs [x]"
      by (auto elim: keeps_mono)
    from followsD [OF follows_preprocess [OF ok this] d] show ?thesis .
  qed
  from v show ?thesis
    by (auto simp: look made_defs_def segment_defs)
qed

theorem debug_flags_follow_do_debug_witness:
  "\<exists>st. preprocess sample_headers (build_with 1) = Inr st \<and>
     map_of (build_with 1) ''_do_debug'' = Some (Repl (Num 1)) \<and>
     keeps sample_headers [''_do_debug'', ''PP_DEBUG'', ''PP_SPOTLIGHT_SUPPORT'',
       ''PP_QC_SUPPORT'', ''PP_DEBUGNEW_SUPPORT'', ''DEBUG_NEW''] \<and>
     map_of (macros st) ''PP_DEBUG'' = Some (Repl (Num 1)) \<and>
     map_of (macros st) ''PP_SPOTLIGHT_SUPPORT'' = Some (Repl (Num 1)) \<and>
     map_of (macros st) ''PP_QC_SUPPORT'' = Some (Repl (Num 0)) \<and>
     map_of (macros st) ''PP_DEBUGNEW_SUPPORT'' = Some (Repl (Num 0))"
proof -
  have dd: "map_of (build_with 1) ''_do_debug'' = Some (Repl (Num 1))"
    by (simp add: build_with_def)
  have k: "keeps sample_headers [''_do_debug'', ''PP_DEBUG'', ''PP_SPOTLIGHT_SUPPORT'',
       ''PP_QC_SUPPORT'', ''PP_DEBUGNEW_SUPPORT'', ''DEBUG_NEW'']"
    by (simp add: sample_keeps)
  from debug_flags_follow_do_debug [OF debug_build dd k] debug_build dd k show ?thesis
    by blast
qed

text \<open>
  C4. After a successful expansion every symbol of the downstream contract is defined:
  \<^verbatim>\<open>PP_Target_Carbon\<close>, \<^verbatim>\<open>TARGET_API_MAC_OSX\<close>, \<^verbatim>\<open>PP_DEBUG\<close>, \<^verbatim>\<open>PP_SPOTLIGHT_SUPPORT\<close>
  and \<^verbatim>\<open>_mac_gui_app\<close>. The outside headers leave the first four as they are; the last
  is defined by the last directive of the file.
\<close>

theorem contract_symbols_defined:
  assumes ok: "preprocess hs ms = Inr st"
    and k: "keeps hs [''PP_Target_Carbon'', ''TARGET_API_MAC_OSX'', ''PP_DEBUG'',
                     ''PP_SPOTLIGHT_SUPPORT'']"
  shows "map_of (macros st) ''PP_Target_Carbon'' \<noteq> None \<and>
         map_of (macros st) ''TARGET_API_MAC_OSX'' \<noteq> None \<and>
         map_of (macros st) ''PP_DEBUG'' \<noteq> None \<and>
         map_of (macros st) ''PP_SPOTLIGHT_SUPPORT'' \<noteq> None \<and>
         map_of (macros st) ''_mac_gui_app'' = Some Blank"
proof -
  from ok have run: "run hs CommonMachOPrefix (start ms) = Inr st"
    by (simp add: preprocess_def)
  \<comment> \<open>lines 9 to 15\<close>
  let ?R = "options @ map Include msl_headers @ fixeddecimal_guard # no_blockmove @
     do_debug_guards @ macos_macros @ for_msl # debug_flags #
     Include (Angle ''PP_Debug.h'') # debugnew_leaks # map Include widget_headers @ closing"
  have "CommonMachOPrefix = mach_o_target @ ?R"
    by (simp add: CommonMachOPrefix_def)
  with run have "run hs (mach_o_target @ ?R) (start ms) = Inr st"
    by simp
  then obtain s where s: "run hs mach_o_target (start ms) = Inr s"
    and r: "run hs ?R s = Inr st"
    by (rule run_appendE)
  have target: "map_of (macros st) x = map_of (macros s) x"
    if "x \<in> set [''PP_Target_Carbon'', ''TARGET_API_MAC_OSX'']" for x
  proof -
    from that k have "keeps hs [x]"
      by (auto elim: keeps_mono)
    moreover from that have "x \<notin> set (concat (map names_of ?R))"
      by (auto simp: all_defs)
    ultimately show ?thesis
      using r by (rule stable_exec_run(2) [rotated])
  qed
  from s have "macros s = fold (\<lambda>(x, b). AList.update x b) (defs_of mach_o_target) ms"
    by (auto simp: mach_o_target_def start_def)
  then have c1: "map_of (macros st) ''PP_Target_Carbon'' \<noteq> None"
    and c2: "map_of (macros st) ''TARGET_API_MAC_OSX'' \<noteq> None"
    by (simp_all add: target mach_o_target_def AList.update_conv')
  \<comment> \<open>lines 81 to 116: either branch defines the two flags\<close>
  let ?F = "mach_o_target @ options @ map Include msl_headers @ fixeddecimal_guard #
     no_blockmove @ do_debug_guards @ macos_macros @ [for_msl]"
  let ?T = "Include (Angle ''PP_Debug.h'') # debugnew_leaks # map Include widget_headers @
     closing"
  have "CommonMachOPrefix = ?F @ debug_flags # ?T"
    by (simp add: CommonMachOPrefix_def)
  with run have "run hs (?F @ debug_flags # ?T) (start ms) = Inr st"
    by simp
  then obtain s5 where "run hs (debug_flags # ?T) s5 = Inr st"
    by (rule run_appendE)
  then obtain s7 where e7: "exec hs debug_flags s5 = Inr s7" and t: "run hs ?T s7 = Inr st"
    by (auto split: sum.splits)
  have flags: "map_of (macros st) x = map_of (macros s7) x"
    if "x \<in> set [''PP_DEBUG'', ''PP_SPOTLIGHT_SUPPORT'']" for x
  proof -
    from that k have "keeps hs [x]"
      by (auto elim: keeps_mono)
    moreover from that have "x \<notin> set (concat (map names_of ?T))"
      by (auto simp: all_defs)
    ultimately show ?thesis
      using t by (rule stable_exec_run(2) [rotated])
  qed
  from e7 have "macros s7 = fold (\<lambda>(x, b). AList.update x b) (defs_of debug_on) (macros s5) \<or>
      macros s7 = fold (\<lambda>(x, b). AList.update x b) (defs_of debug_off) (macros s5)"
    by (auto simp: debug_flags_def debug_on_def debug_off_def split: option.splits if_splits)
  then have c3: "map_of (macros st) ''PP_DEBUG'' \<noteq> None"
    and c4: "map_of (macros st) ''PP_SPOTLIGHT_SUPPORT'' \<noteq> None"
    by (auto simp: flags debug_on_def debug_off_def AList.update_conv')
  \<comment> \<open>line 177\<close>
  let ?B = "mach_o_target @ options @ map Include msl_headers @ fixeddecimal_guard #
     no_blockmove @ do_debug_guards @ macos_macros @ for_msl # debug_flags #
     Include (Angle ''PP_Debug.h'') # debugnew_leaks # map Include widget_headers @
     [Include (Quote ''my_notation.h'')]"
  have "CommonMachOPrefix = ?B @ [Define ''_mac_gui_app'' Blank]"
    by (simp add: CommonMachOPrefix_def closing_def)
  with run have "run hs (?B @ [Define ''_mac_gui_app'' Blank]) (start ms) = Inr st"
    by simp
  then obtain sl where "run hs [Define ''_mac_gui_app'' Blank] sl = Inr st"
    by (rule run_appendE)
  then have c5: "map_of (macros st) ''_mac_gui_app'' = Some Blank"
    by (auto simp: AList.update_conv')
  from c1 c2 c3 c4 c5 show ?thesis
    by simp
qed

theorem contract_symbols_defined_witness:
  "\<exists>st. preprocess sample_headers (build_with 1) = Inr st \<and>
     keeps sample_headers [''PP_Target_Carbon'', ''TARGET_API_MAC_OSX'', ''PP_DEBUG'',
       ''PP_SPOTLIGHT_SUPPORT''] \<and>
     map_of (macros st) ''PP_Target_Carbon'' \<noteq> None \<and>
     map_of (macros st) ''TARGET_API_MAC_OSX'' \<noteq> None \<and>
     map_of (macros st) ''PP_DEBUG'' \<noteq> None \<and>
     map_of (macros st) ''PP_SPOTLIGHT_SUPPORT'' \<noteq> None \<and>
     map_of (macros st) ''_mac_gui_app'' = Some Blank"
proof -
  have k: "keeps sample_headers [''PP_Target_Carbon'', ''TARGET_API_MAC_OSX'', ''PP_DEBUG'',
       ''PP_SPOTLIGHT_SUPPORT'']"
    by (simp add: sample_keeps)
  from contract_symbols_defined [OF debug_build k] debug_build k show ?thesis
    by blast
qed

text \<open>
  C5. The Pascal-string and dialog options are the same in every successful expansion,
  whatever \<^verbatim>\<open>_do_debug\<close> is: \<^verbatim>\<open>PP_Supports_Pascal_Strings\<close> is 1,
  \<^verbatim>\<open>PP_StdDialogs_Option\<close> is \<^verbatim>\<open>PP_StdDialogs_NavServicesOnly\<close> and
  \<^verbatim>\<open>PP_Uses_PowerPlant_Namespace\<close> is 0. The outside headers leave the three as they are.
\<close>

theorem options_fixed:
  assumes ok: "preprocess hs ms = Inr st"
    and k: "keeps hs [''PP_Uses_PowerPlant_Namespace'', ''PP_Supports_Pascal_Strings'',
                     ''PP_StdDialogs_Option'']"
  shows "map_of (macros st) ''PP_Supports_Pascal_Strings'' = Some (Repl (Num 1)) \<and>
         map_of (macros st) ''PP_StdDialogs_Option'' =
           Some (Repl (Ident ''PP_StdDialogs_NavServicesOnly'')) \<and>
         map_of (macros st) ''PP_Uses_PowerPlant_Namespace'' = Some (Repl (Num 0))"
proof -
  let ?R = "map Include msl_headers @ fixeddecimal_guard # no_blockmove @
     do_debug_guards @ macos_macros @ for_msl # debug_flags #
     Include (Angle ''PP_Debug.h'') # debugnew_leaks # map Include widget_headers @ closing"
  have "CommonMachOPrefix = (mach_o_target @ options) @ ?R"
    by (simp add: CommonMachOPrefix_def)
  with ok have "run hs ((mach_o_target @ options) @ ?R) (start ms) = Inr st"
    by (simp add: preprocess_def)
  then obtain s where s: "run hs (mach_o_target @ options) (start ms) = Inr s"
    and r: "run hs ?R s = Inr st"
    by (rule run_appendE)
  have st: "map_of (macros st) x = map_of (macros s) x"
    if "x \<in> set [''PP_Uses_PowerPlant_Namespace'', ''PP_Supports_Pascal_Strings'',
                  ''PP_StdDialogs_Option'']" for x
  proof -
    from that k have "keeps hs [x]"
      by (auto elim: keeps_mono)
    moreover from that have "x \<notin> set (concat (map names_of ?R))"
      by (auto simp: all_defs)
    ultimately show ?thesis
      using r by (rule stable_exec_run(2) [rotated])
  qed
  from s have "macros s =
      fold (\<lambda>(x, b). AList.update x b) (defs_of (mach_o_target @ options)) ms"
    by (auto simp: mach_o_target_def options_def start_def)
  then show ?thesis
    by (simp add: st mach_o_target_def options_def AList.update_conv')
qed

theorem options_fixed_witness:
  "\<exists>st. preprocess sample_headers (build_with 0) = Inr st \<and>
     keeps sample_headers [''PP_Uses_PowerPlant_Namespace'', ''PP_Supports_Pascal_Strings'',
       ''PP_StdDialogs_Option''] \<and>
     map_of (macros st) ''PP_Supports_Pascal_Strings'' = Some (Repl (Num 1)) \<and>
     map_of (macros st) ''PP_StdDialogs_Option'' =
       Some (Repl (Ident ''PP_StdDialogs_NavServicesOnly'')) \<and>
     map_of (macros st) ''PP_Uses_PowerPlant_Namespace'' = Some (Repl (Num 0))"
proof -
  have k: "keeps sample_headers [''PP_Uses_PowerPlant_Namespace'',
      ''PP_Supports_Pascal_Strings'', ''PP_StdDialogs_Option'']"
    by (simp add: sample_keeps)
  from options_fixed [OF release_build k] release_build k show ?thesis
    by blast
qed

text \<open>
  C6. Every successful expansion includes the widget headers \<^verbatim>\<open>LTable.h\<close>,
  \<^verbatim>\<open>LTableView.h\<close>, \<^verbatim>\<open>LTableMultiSelector.h\<close>, \<^verbatim>\<open>LTableMultiGeometry.h\<close>,
  \<^verbatim>\<open>LTableMonoGeometry.h\<close>, \<^verbatim>\<open>LGroupBox.h\<close>, \<^verbatim>\<open>LIconPane.h\<close>, \<^verbatim>\<open>PP_DebugMacros.h\<close>,
  \<^verbatim>\<open>LPopupButton.h\<close>, \<^verbatim>\<open>UNavServicesDialogs.h\<close> and \<^verbatim>\<open>UControlRegistry.h\<close>, in that
  order and one after the other, under no condition: they are the inclusions before
  the last one, that of \<^verbatim>\<open>my_notation.h\<close>.
\<close>

theorem widget_chain_included:
  assumes ok: "preprocess hs ms = Inr st"
  shows "(\<exists>before. included st = before @ widget_headers @ [Quote ''my_notation.h'']) \<and>
         widget_headers =
           [Angle ''LTable.h'', Angle ''LTableView.h'', Angle ''LTableMultiSelector.h'',
            Angle ''LTableMultiGeometry.h'', Angle ''LTableMonoGeometry.h'',
            Angle ''LGroupBox.h'', Angle ''LIconPane.h'', Angle ''PP_DebugMacros.h'',
            Angle ''LPopupButton.h'', Angle ''UNavServicesDialogs.h'',
            Angle ''UControlRegistry.h'']"
proof -
  let ?F = "mach_o_target @ options @ map Include msl_headers @ fixeddecimal_guard #
     no_blockmove @ do_debug_guards @ macos_macros @ for_msl # debug_flags #
     Include (Angle ''PP_Debug.h'') # [debugnew_leaks]"
  let ?W = "map Include widget_headers @ closing"
  have "CommonMachOPrefix = ?F @ ?W"
    by (simp add: CommonMachOPrefix_def)
  with ok have "run hs (?F @ ?W) (start ms) = Inr st"
    by (simp add: preprocess_def)
  then obtain s where w: "run hs ?W s = Inr st"
    by (rule run_appendE)
  have "\<forall>d\<in>set ?W. plain d"
    by (auto simp: closing_def)
  from run_plain [OF this w]
  have "included st = included s @ widget_headers @ [Quote ''my_notation.h'']"
    by (simp add: incs_of_append incs_of_Include closing_def)
  then show ?thesis
    by (auto simp: widget_headers_def)
qed

theorem widget_chain_included_witness:
  "\<exists>st. preprocess sample_headers (build_with 0) = Inr st \<and>
     (\<exists>before. included st = before @ widget_headers @ [Quote ''my_notation.h''])"
  using widget_chain_included [OF release_build] release_build
  by blast







text \<open>
  C9. The guard of lines 40 to 42 is conservative about \<^verbatim>\<open>FIXEDDECIMAL\<close>. In any state
  it succeeds, leaves a \<^verbatim>\<open>FIXEDDECIMAL\<close> that is defined as it is, defines an undefined
  one as 1, changes no other macro and includes nothing. For the whole file: when the
  outside headers leave \<^verbatim>\<open>FIXEDDECIMAL\<close> as it is, a successful run ends with the prior
  definition of \<^verbatim>\<open>FIXEDDECIMAL\<close> if there was one and with the definition 1 otherwise,
  so \<^verbatim>\<open>FIXEDDECIMAL\<close> is defined after the file.
\<close>

theorem fixeddecimal_conservative:
  assumes ok: "preprocess hs ms = Inr fin" and k: "keeps hs [''FIXEDDECIMAL'']"
  shows "fixeddecimal_guard \<in> set CommonMachOPrefix \<and>
    (\<forall>st. \<exists>st'. exec hs fixeddecimal_guard st = Inr st' \<and>
       map_of (macros st') ''FIXEDDECIMAL'' =
         (case map_of (macros st) ''FIXEDDECIMAL'' of
            None \<Rightarrow> Some (Repl (Num 1)) | Some b \<Rightarrow> Some b) \<and>
       (\<forall>x. x \<noteq> ''FIXEDDECIMAL'' \<longrightarrow> map_of (macros st') x = map_of (macros st) x) \<and>
       included st' = included st) \<and>
    map_of (macros fin) ''FIXEDDECIMAL'' =
      (case map_of ms ''FIXEDDECIMAL'' of None \<Rightarrow> Some (Repl (Num 1)) | Some b \<Rightarrow> Some b) \<and>
    map_of (macros fin) ''FIXEDDECIMAL'' \<noteq> None"
proof -
  let ?fd = "''FIXEDDECIMAL''"
  have guard: "\<exists>st'. exec hs fixeddecimal_guard st = Inr st' \<and>
       map_of (macros st') ?fd =
         (case map_of (macros st) ?fd of None \<Rightarrow> Some (Repl (Num 1)) | Some b \<Rightarrow> Some b) \<and>
       (\<forall>x. x \<noteq> ?fd \<longrightarrow> map_of (macros st') x = map_of (macros st) x) \<and>
       included st' = included st" for st
    by (auto simp: fixeddecimal_guard_def AList.update_conv')
  let ?P = "mach_o_target @ options @ map Include msl_headers"
  let ?R = "no_blockmove @ do_debug_guards @ macos_macros @ for_msl # debug_flags #
     Include (Angle ''PP_Debug.h'') # debugnew_leaks # map Include widget_headers @ closing"
  have H: "CommonMachOPrefix = ?P @ fixeddecimal_guard # ?R"
    by (simp add: CommonMachOPrefix_def)
  with ok have "run hs (?P @ fixeddecimal_guard # ?R) (start ms) = Inr fin"
    by (simp add: preprocess_def)
  then obtain s1 where p: "run hs ?P (start ms) = Inr s1"
    and "run hs (fixeddecimal_guard # ?R) s1 = Inr fin"
    by (rule run_appendE)
  then obtain s2 where g: "exec hs fixeddecimal_guard s1 = Inr s2" and r: "run hs ?R s2 = Inr fin"
    by (auto split: sum.splits)
  have "?fd \<notin> set (concat (map names_of ?P))"
    by (simp add: all_defs)
  from stable_exec_run(2) [OF p k this]
  have 1: "map_of (macros s1) ?fd = map_of ms ?fd"
    by (simp add: start_def)
  from guard [of s1] g
  have 2: "map_of (macros s2) ?fd =
      (case map_of (macros s1) ?fd of None \<Rightarrow> Some (Repl (Num 1)) | Some b \<Rightarrow> Some b)"
    by auto
  have "?fd \<notin> set (concat (map names_of ?R))"
    by (simp add: all_defs)
  from stable_exec_run(2) [OF r k this]
  have 3: "map_of (macros fin) ?fd = map_of (macros s2) ?fd" .
  have "fixeddecimal_guard \<in> set CommonMachOPrefix"
    by (simp add: H)
  with guard 1 2 3 show ?thesis
    by (auto split: option.splits)
qed

theorem fixeddecimal_conservative_witness:
  "\<exists>fin. preprocess sample_headers ((''FIXEDDECIMAL'', Repl (Num 2)) # build_with 1) = Inr fin \<and>
     keeps sample_headers [''FIXEDDECIMAL''] \<and>
     map_of (macros fin) ''FIXEDDECIMAL'' = Some (Repl (Num 2))"
proof -
  let ?ms = "(''FIXEDDECIMAL'', Repl (Num 2)) # build_with 1"
  from preset_build obtain fin where f: "preprocess sample_headers ?ms = Inr fin"
    by simp
  have k: "keeps sample_headers [''FIXEDDECIMAL'']"
    by (simp add: sample_keeps)
  from fixeddecimal_conservative [OF f k]
  have "map_of (macros fin) ''FIXEDDECIMAL'' = Some (Repl (Num 2))"
    by simp
  with f k show ?thesis
    by blast
qed

text \<open>
  C10. The file defines \<^verbatim>\<open>Debug_Throw\<close> and \<^verbatim>\<open>Debug_Signal\<close> if and only if
  \<^verbatim>\<open>_do_debug\<close> is 1: then both are defined afterwards, with an empty body; with
  \<^verbatim>\<open>_do_debug\<close> 0 the file defines neither and both are what they were before. The
  run succeeds, \<^verbatim>\<open>_do_debug\<close> is an integer literal, and the outside headers leave it
  and the two macros as they are.
\<close>

theorem debug_instrumentation_iff:
  assumes ok: "preprocess hs ms = Inr st"
    and dd: "map_of ms ''_do_debug'' = Some (Repl (Num v))"
    and k: "keeps hs [''_do_debug'', ''Debug_Throw'', ''Debug_Signal'']"
  shows "(''Debug_Throw'' \<in> fst ` set (defined st) \<longleftrightarrow> v = 1) \<and>
         (''Debug_Signal'' \<in> fst ` set (defined st) \<longleftrightarrow> v = 1) \<and>
         (v = 1 \<longrightarrow> map_of (macros st) ''Debug_Throw'' = Some Blank \<and>
                     map_of (macros st) ''Debug_Signal'' = Some Blank) \<and>
         (v = 0 \<longrightarrow> map_of (macros st) ''Debug_Throw'' = map_of ms ''Debug_Throw'' \<and>
                     map_of (macros st) ''Debug_Signal'' = map_of ms ''Debug_Signal'') \<and>
         (v = 0 \<or> v = 1)"
proof -
  from k have kd: "keeps hs [''_do_debug'']" and kt: "keeps hs [''Debug_Throw'']"
    and ks: "keeps hs [''Debug_Signal'']"
    by (auto elim: keeps_mono)
  from expansion [OF ok dd kd] obtain fd nw where v: "v = 0 \<or> v = 1"
    and d: "defined st = made_defs v fd nw"
    by blast
  note t = followsD [OF follows_preprocess [OF ok kt] d]
    and s = followsD [OF follows_preprocess [OF ok ks] d]
  from v have "''Debug_Throw'' \<in> fst ` set (defined st) \<longleftrightarrow> v = 1"
    and "''Debug_Signal'' \<in> fst ` set (defined st) \<longleftrightarrow> v = 1"
    by (auto simp: d made_defs_def segment_defs)
  moreover from t s have "map_of (macros st) ''Debug_Throw'' = Some Blank \<and>
      map_of (macros st) ''Debug_Signal'' = Some Blank" if "v = 1"
    using that by (auto simp: made_defs_def segment_defs)
  moreover from t s have "map_of (macros st) ''Debug_Throw'' = map_of ms ''Debug_Throw'' \<and>
      map_of (macros st) ''Debug_Signal'' = map_of ms ''Debug_Signal''" if "v = 0"
    using that by (auto simp: made_defs_def segment_defs)
  ultimately show ?thesis
    using v by blast
qed

theorem debug_instrumentation_iff_witness:
  "\<exists>st. preprocess sample_headers (build_with 0) = Inr st \<and>
     map_of (build_with 0) ''_do_debug'' = Some (Repl (Num 0)) \<and>
     keeps sample_headers [''_do_debug'', ''Debug_Throw'', ''Debug_Signal''] \<and>
     ''Debug_Throw'' \<notin> fst ` set (defined st) \<and>
     ''Debug_Signal'' \<notin> fst ` set (defined st) \<and>
     map_of (macros st) ''Debug_Throw'' = None \<and>
     map_of (macros st) ''Debug_Signal'' = None"
proof -
  have dd: "map_of (build_with 0) ''_do_debug'' = Some (Repl (Num 0))"
    and n: "map_of (build_with 0) ''Debug_Throw'' = None"
      "map_of (build_with 0) ''Debug_Signal'' = None"
    by (simp_all add: build_with_def)
  have k: "keeps sample_headers [''_do_debug'', ''Debug_Throw'', ''Debug_Signal'']"
    by (simp add: sample_keeps)
  from debug_instrumentation_iff [OF release_build dd k] release_build dd k n show ?thesis
    by auto
qed


end
